theory Spec2Isabelle
  imports Main "HOL-Library.Multiset"
begin

section \<open>Board format converter (convert.py)\<close>

text \<open>
  A shallow embedding of \<^verbatim>\<open>src/convert.py\<close>. Python's unbounded integers are
  \<^typ>\<open>int\<close>, its strings are \<^typ>\<open>string\<close>, its exceptions are values of the type
  \<open>error\<close> returned on the left of a sum. Text is taken to be ASCII: the characters
  that \<^verbatim>\<open>str.strip\<close> and \<^verbatim>\<open>int\<close> treat as white space are the ASCII ones (the two
  sets differ), and the digits are \<^verbatim>\<open>0\<close> to \<^verbatim>\<open>9\<close>. The interpreter's limit on the number of digits
  of a converted integer is not modelled.
\<close>

subsection \<open>The Python built-ins the converter uses\<close>

datatype error = IndexError | ValueError | TypeError | OSError

definition newline :: char where
  "newline = CHR 0x0A"

text \<open>\<^verbatim>\<open>str.isspace\<close> on ASCII: tab, line feed, vertical tab, form feed, carriage
  return, the four separators 0x1C to 0x1F, and the space.\<close>

definition is_space :: "char \<Rightarrow> bool" where
  "is_space c \<longleftrightarrow>
     c \<in> set [CHR 0x09, CHR 0x0A, CHR 0x0B, CHR 0x0C, CHR 0x0D,
              CHR 0x1C, CHR 0x1D, CHR 0x1E, CHR 0x1F, CHR '' '']"

text \<open>\<^verbatim>\<open>s.strip()\<close>: white space is removed at both ends.\<close>

definition py_strip :: "string \<Rightarrow> string" where
  "py_strip s = rev (dropWhile is_space (rev (dropWhile is_space s)))"

text \<open>\<^verbatim>\<open>s.split(sep)\<close> for a separator of one character: the result always has at
  least one element, and \<^verbatim>\<open>"".split(sep)\<close> is \<^verbatim>\<open>[""]\<close>. The second branch of the
  \<open>case\<close> below is never taken, since the recursive call returns a non-empty list.\<close>

fun py_split :: "char \<Rightarrow> string \<Rightarrow> string list" where
  "py_split sep [] = [[]]"
| "py_split sep (c # cs) =
     (if c = sep then [] # py_split sep cs
      else (case py_split sep cs of t # ts \<Rightarrow> (c # t) # ts | [] \<Rightarrow> [[c]]))"

text \<open>\<^verbatim>\<open>sep.join(xs)\<close>.\<close>

fun py_join :: "string \<Rightarrow> string list \<Rightarrow> string" where
  "py_join sep [] = []"
| "py_join sep [x] = x"
| "py_join sep (x # y # ys) = x @ sep @ py_join sep (y # ys)"

definition is_digit :: "char \<Rightarrow> bool" where
  "is_digit c \<longleftrightarrow> c \<in> set ''0123456789''"

definition digit_val :: "char \<Rightarrow> int" where
  "digit_val c = int (of_char c) - 48"

text \<open>The digits of a decimal literal after the first one: an underscore may stand
  between two digits, never next to another underscore and never at the end.\<close>

fun digits_acc :: "string \<Rightarrow> bool \<Rightarrow> int \<Rightarrow> int option" where
  "digits_acc [] prev_us acc = (if prev_us then None else Some acc)"
| "digits_acc (c # cs) prev_us acc =
     (if is_digit c then digits_acc cs False (10 * acc + digit_val c)
      else if c = CHR ''_'' \<and> \<not> prev_us then digits_acc cs True acc
      else None)"

definition parse_unsigned :: "string \<Rightarrow> int option" where
  "parse_unsigned s =
     (case s of
        [] \<Rightarrow> None
      | c # cs \<Rightarrow> if is_digit c then digits_acc cs False (digit_val c) else None)"

text \<open>The white space that \<^verbatim>\<open>int\<close> skips around an ASCII literal: tab, line feed,
  vertical tab, form feed, carriage return and the space. The separators 0x1C to 0x1F,
  which \<^verbatim>\<open>strip\<close> removes, are not among them: \<^verbatim>\<open>int\<close> raises on them.\<close>

definition is_int_space :: "char \<Rightarrow> bool" where
  "is_int_space c \<longleftrightarrow>
     c \<in> set [CHR 0x09, CHR 0x0A, CHR 0x0B, CHR 0x0C, CHR 0x0D, CHR '' '']"

definition int_strip :: "string \<Rightarrow> string" where
  "int_strip s = rev (dropWhile is_int_space (rev (dropWhile is_int_space s)))"

text \<open>\<^verbatim>\<open>int(s)\<close> in base 10: the surrounding white space that \<^verbatim>\<open>int\<close> skips is
  dropped, one sign is allowed, then the digits. \<open>None\<close> stands for the
  \<^verbatim>\<open>ValueError\<close> of an invalid literal.\<close>

definition py_int :: "string \<Rightarrow> int option" where
  "py_int s =
     (case int_strip s of
        [] \<Rightarrow> None
      | c # cs \<Rightarrow>
          if c = CHR ''-'' then map_option uminus (parse_unsigned cs)
          else if c = CHR ''+'' then parse_unsigned cs
          else parse_unsigned (c # cs))"

definition int_of :: "string \<Rightarrow> error + int" where
  "int_of s = (case py_int s of None \<Rightarrow> Inl ValueError | Some i \<Rightarrow> Inr i)"

text \<open>\<^verbatim>\<open>str(i)\<close> for an integer.\<close>

definition digit_char :: "nat \<Rightarrow> char" where
  "digit_char d = char_of (48 + d)"

fun str_nat :: "nat \<Rightarrow> string" where
  "str_nat m = (if m < 10 then [digit_char m] else str_nat (m div 10) @ [digit_char (m mod 10)])"

declare str_nat.simps [simp del]

definition py_str :: "int \<Rightarrow> string" where
  "py_str i = (if i < 0 then CHR ''-'' # str_nat (nat (- i)) else str_nat (nat i))"

text \<open>\<^verbatim>\<open>max\<close> of an iterable of integers: it raises on an empty one.\<close>

definition py_max :: "int list \<Rightarrow> error + int" where
  "py_max xs = (case xs of [] \<Rightarrow> Inl ValueError | y # ys \<Rightarrow> Inr (fold max ys y))"

text \<open>A comprehension or \<^verbatim>\<open>map\<close> whose element function may raise: elements are
  evaluated from left to right and the first exception ends the evaluation.\<close>

fun traverse :: "('a \<Rightarrow> error + 'b) \<Rightarrow> 'a list \<Rightarrow> error + 'b list" where
  "traverse f [] = Inr []"
| "traverse f (x # xs) =
     (case f x of
        Inl e \<Rightarrow> Inl e
      | Inr y \<Rightarrow> (case traverse f xs of Inl e \<Rightarrow> Inl e | Inr ys \<Rightarrow> Inr (y # ys)))"

text \<open>Unpacking the lazy iterator \<^verbatim>\<open>map(f, xs)\<close> into \<open>m\<close> targets: the elements are
  computed one at a time; running out of elements early is a \<^verbatim>\<open>ValueError\<close>, and after
  the last target one more element is requested, whose computation may raise, and whose
  presence is a \<^verbatim>\<open>ValueError\<close>.\<close>

fun unpack :: "nat \<Rightarrow> ('a \<Rightarrow> error + 'b) \<Rightarrow> 'a list \<Rightarrow> error + 'b list" where
  "unpack 0 f [] = Inr []"
| "unpack 0 f (x # xs) = (case f x of Inl e \<Rightarrow> Inl e | Inr y \<Rightarrow> Inl ValueError)"
| "unpack (Suc m) f [] = Inl ValueError"
| "unpack (Suc m) f (x # xs) =
     (case f x of
        Inl e \<Rightarrow> Inl e
      | Inr y \<Rightarrow> (case unpack m f xs of Inl e \<Rightarrow> Inl e | Inr ys \<Rightarrow> Inr (y # ys)))"

subsection \<open>The Board class\<close>

datatype DataType = OLD | NEW

record Board =
  n :: int
  k :: int
  chips_asc :: "int list list"
  chips_desc :: "int list list"
  goal :: int

text \<open>\<^verbatim>\<open>column.sort()\<close> and \<^verbatim>\<open>column.sort(reverse=True)\<close>: stable sorts, the second
  one by decreasing value.\<close>

definition sort_asc :: "int list \<Rightarrow> int list" where
  "sort_asc column = sort column"

definition sort_desc :: "int list \<Rightarrow> int list" where
  "sort_desc column = sort_key uminus column"

text \<open>\<^verbatim>\<open>Board.__init__\<close>: both copies of the columns are sorted in place.\<close>

definition Board_init :: "int \<Rightarrow> int \<Rightarrow> int list list \<Rightarrow> int \<Rightarrow> Board" where
  "Board_init n0 k0 chips goal0 =
     \<lparr> n = n0, k = k0, chips_asc = map sort_asc chips,
       chips_desc = map sort_desc chips, goal = goal0 \<rparr>"

text \<open>\<^verbatim>\<open>column[0]\<close>.\<close>

definition first :: "int list \<Rightarrow> error + int" where
  "first column = (case column of [] \<Rightarrow> Inl IndexError | r # _ \<Rightarrow> Inr r)"

definition calc_max_row :: "Board \<Rightarrow> error + int" where
  "calc_max_row self =
     (case traverse first (chips_desc self) of
        Inl e \<Rightarrow> Inl e
      | Inr firsts \<Rightarrow> py_max firsts)"

definition calc_num_chips :: "Board \<Rightarrow> int" where
  "calc_num_chips self =
     sum_list (map (\<lambda>column. int (length (filter (\<lambda>r. r \<ge> 0) column))) (chips_asc self))"

text \<open>\<^verbatim>\<open>Board.fromString\<close>. \<^verbatim>\<open>lines[0]\<close> raises \<^verbatim>\<open>IndexError\<close> on an empty list;
  \<^verbatim>\<open>r.split(":")[0]\<close> always exists; \<^verbatim>\<open>x.split("=")[1]\<close> raises \<^verbatim>\<open>IndexError\<close> when
  \<open>x\<close> has no \<^verbatim>\<open>=\<close>. The enumeration has two members, so the last branch of the source
  (\<^verbatim>\<open>raise ValueError("Invalid type")\<close>) has no counterpart.\<close>

definition old_token :: "string \<Rightarrow> error + int" where
  "old_token r = int_of (hd (py_split CHR '':'' r))"

definition new_header_field :: "string \<Rightarrow> error + int" where
  "new_header_field x =
     (case py_split CHR ''='' x of
        _ # v # _ \<Rightarrow> int_of v
      | _ \<Rightarrow> Inl IndexError)"

definition fromString :: "DataType \<Rightarrow> string list \<Rightarrow> error + Board" where
  "fromString datatype lines =
     (case datatype of
        OLD \<Rightarrow>
          (case lines of
             [] \<Rightarrow> Inl IndexError
           | header # rest \<Rightarrow>
               (case unpack 5 int_of (py_split CHR '','' header) of
                  Inl e \<Rightarrow> Inl e
                | Inr hdr \<Rightarrow>
                    (case traverse (\<lambda>column. traverse old_token (py_split CHR '' '' column)) rest of
                       Inl e \<Rightarrow> Inl e
                     | Inr chips \<Rightarrow> Inr (Board_init (hdr ! 0) (hdr ! 1) chips (hdr ! 2)))))
      | NEW \<Rightarrow>
          (case lines of
             [] \<Rightarrow> Inl IndexError
           | header # rest \<Rightarrow>
               (case unpack 3 new_header_field (py_split CHR '','' header) of
                  Inl e \<Rightarrow> Inl e
                | Inr hdr \<Rightarrow>
                    (case traverse (\<lambda>column. traverse int_of (py_split CHR '' '' column)) rest of
                       Inl e \<Rightarrow> Inl e
                     | Inr chips \<Rightarrow> Inr (Board_init (hdr ! 0) (hdr ! 1) chips 0)))))"

text \<open>\<^verbatim>\<open>Board.toString\<close>. The two bodies are the list comprehensions of the source, one
  line for each column.\<close>

definition old_body_lines :: "Board \<Rightarrow> string list" where
  "old_body_lines self =
     map (\<lambda>column. py_join '' '' (map (\<lambda>r. py_str r @ '':0'') column)) (chips_asc self)"

definition new_body_lines :: "Board \<Rightarrow> string list" where
  "new_body_lines self =
     map (\<lambda>column. py_join '' '' (map py_str column)) (chips_desc self)"

definition toString :: "Board \<Rightarrow> DataType \<Rightarrow> error + string" where
  "toString self datatype =
     (case datatype of
        OLD \<Rightarrow>
          (case calc_max_row self of
             Inl e \<Rightarrow> Inl e
           | Inr max_row \<Rightarrow>
               Inr (py_str (n self) @ '','' @ py_str (k self) @ '','' @ py_str (goal self)
                    @ '','' @ py_str max_row @ '','' @ py_str (calc_num_chips self)
                    @ [newline] @ py_join [newline] (old_body_lines self)))
      | NEW \<Rightarrow>
          Inr (''n='' @ py_str (n self) @ '',k='' @ py_str (k self)
               @ '',n_chips='' @ py_str (calc_num_chips self)
               @ [newline] @ py_join [newline] (new_body_lines self)))"

subsection \<open>Reading and writing files\<close>

text \<open>The command line after \<^verbatim>\<open>parse_args\<close>, and the files as a map from paths to
  their text. The text of a file is what Python's text layer delivers, after its
  translation of line endings.\<close>

record Args =
  arg_in :: string
  arg_out :: string
  arg_direction :: string
  arg_goal :: "string option"
  arg_isep :: "string option"
  arg_osep :: "string option"

type_synonym files = "string \<rightharpoonup> string"

definition DEFAULT_SEPARATOR :: string where
  "DEFAULT_SEPARATOR = ''---''"

text \<open>Iterating over a text file: each line keeps its line feed; a last line without
  one is delivered as it is.\<close>

fun file_lines :: "string \<Rightarrow> string list" where
  "file_lines [] = []"
| "file_lines (c # cs) =
     (if c = newline then [c] # file_lines cs
      else (case file_lines cs of [] \<Rightarrow> [[c]] | l # ls \<Rightarrow> (c # l) # ls))"

text \<open>The loop of \<^verbatim>\<open>file_to_boards\<close>, with its two variables \<open>buffer\<close> and \<open>boards\<close>.\<close>

fun read_loop ::
  "DataType \<Rightarrow> string \<Rightarrow> string list \<Rightarrow> string list \<Rightarrow> Board list
     \<Rightarrow> error + (string list \<times> Board list)" where
  "read_loop datatype in_separator [] buffer boards = Inr (buffer, boards)"
| "read_loop datatype in_separator (line0 # rest) buffer boards =
     (let line = py_strip line0 in
      if line \<noteq> in_separator then read_loop datatype in_separator rest (buffer @ [line]) boards
      else (case fromString datatype buffer of
              Inl e \<Rightarrow> Inl e
            | Inr b \<Rightarrow> read_loop datatype in_separator rest [] (boards @ [b])))"

definition in_datatype :: "Args \<Rightarrow> DataType" where
  "in_datatype args = (if arg_direction args = ''old-to-new'' then OLD else NEW)"

definition out_datatype :: "Args \<Rightarrow> DataType" where
  "out_datatype args = (if arg_direction args = ''old-to-new'' then NEW else OLD)"

definition in_separator :: "Args \<Rightarrow> string" where
  "in_separator args = (case arg_isep args of None \<Rightarrow> DEFAULT_SEPARATOR | Some s \<Rightarrow> s)"

definition out_separator :: "Args \<Rightarrow> string" where
  "out_separator args = (case arg_osep args of None \<Rightarrow> DEFAULT_SEPARATOR | Some s \<Rightarrow> s)"

definition boards_of_text :: "DataType \<Rightarrow> string \<Rightarrow> string \<Rightarrow> error + Board list" where
  "boards_of_text datatype sep text =
     (case read_loop datatype sep (file_lines text) [] [] of
        Inl e \<Rightarrow> Inl e
      | Inr (buffer, boards) \<Rightarrow>
          if length buffer > 0
          then (case fromString datatype buffer of
                  Inl e \<Rightarrow> Inl e
                | Inr b \<Rightarrow> Inr (boards @ [b]))
          else Inr boards)"

text \<open>\<^verbatim>\<open>file_to_boards\<close>: a missing input file is an \<^verbatim>\<open>OSError\<close>.\<close>

definition file_to_boards :: "Args \<Rightarrow> files \<Rightarrow> error + Board list" where
  "file_to_boards args fs =
     (case fs (arg_in args) of
        None \<Rightarrow> Inl OSError
      | Some text \<Rightarrow> boards_of_text (in_datatype args) (in_separator args) text)"

text \<open>The loop of \<^verbatim>\<open>boards_to_file\<close>; \<open>out\<close> is the text written so far. For the old
  format the goal of the command line replaces the board's: \<^verbatim>\<open>int(None)\<close> is a
  \<^verbatim>\<open>TypeError\<close>, \<^verbatim>\<open>int\<close> of a string that is no integer a \<^verbatim>\<open>ValueError\<close>.\<close>

definition goal_of_args :: "Args \<Rightarrow> error + int" where
  "goal_of_args args = (case arg_goal args of None \<Rightarrow> Inl TypeError | Some g \<Rightarrow> int_of g)"

fun write_loop :: "DataType \<Rightarrow> Args \<Rightarrow> Board list \<Rightarrow> string \<Rightarrow> error option \<times> string" where
  "write_loop datatype args [] out = (None, out)"
| "write_loop datatype args (board # boards) out =
     (case (if datatype = OLD
            then (case goal_of_args args of
                    Inl e \<Rightarrow> Inl e
                  | Inr g \<Rightarrow> toString (board\<lparr>goal := g\<rparr>) datatype)
            else toString board datatype) of
        Inl e \<Rightarrow> (Some e, out)
      | Inr s \<Rightarrow>
          write_loop datatype args boards (out @ s @ [newline] @ out_separator args @ [newline]))"

text \<open>\<^verbatim>\<open>boards_to_file\<close>: the output file is opened for writing, which empties it,
  before the first board is serialized; what was written before an exception stays in
  the file.\<close>

definition boards_to_file :: "Board list \<Rightarrow> Args \<Rightarrow> files \<Rightarrow> error option \<times> files" where
  "boards_to_file boards args fs =
     (case write_loop (out_datatype args) args boards [] of
        (r, out) \<Rightarrow> (r, fs(arg_out args \<mapsto> out)))"

text \<open>The main program, after \<^verbatim>\<open>parse_args\<close>.\<close>

definition main :: "Args \<Rightarrow> files \<Rightarrow> error option \<times> files" where
  "main args fs =
     (case file_to_boards args fs of
        Inl e \<Rightarrow> (Some e, fs)
      | Inr boards \<Rightarrow> boards_to_file boards args fs)"

subsection \<open>Notions of the specification\<close>

text \<open>The first element of a column after sorting it in descending order, and the
  minimum and the maximum of these over the columns.\<close>

definition desc_first :: "int list \<Rightarrow> int" where
  "desc_first column = hd (rev (sort column))"

definition min_first_desc :: "int list list \<Rightarrow> int" where
  "min_first_desc chips = Min (set (map desc_first chips))"

definition max_first_desc :: "int list list \<Rightarrow> int" where
  "max_first_desc chips = Max (set (map desc_first chips))"

text \<open>The maximum, over the columns, of the column's largest value.\<close>

definition column_max :: "int list \<Rightarrow> int" where
  "column_max column = Max (set column)"

definition max_of_columns :: "int list list \<Rightarrow> int" where
  "max_of_columns chips = Max (set (map column_max chips))"

text \<open>The number of values that are at least 0, over all the columns.\<close>

definition num_nonneg :: "int list list \<Rightarrow> int" where
  "num_nonneg chips = int (length (filter (\<lambda>r. 0 \<le> r) (concat chips)))"

text \<open>The records of a text: its stripped lines are cut at the lines equal to the
  separator, and lines left after the last separator form a last record.\<close>

fun records_from :: "string \<Rightarrow> string list \<Rightarrow> string list \<Rightarrow> string list list" where
  "records_from sep [] buffer = (if buffer = [] then [] else [buffer])"
| "records_from sep (l # ls) buffer =
     (if l = sep then buffer # records_from sep ls []
      else records_from sep ls (buffer @ [l]))"

definition records :: "string \<Rightarrow> string \<Rightarrow> string list list" where
  "records sep text = records_from sep (map py_strip (file_lines text)) []"

text \<open>A string that \<^verbatim>\<open>int\<close> accepts; the part of a token before its first colon (the
  whole token when it has none); a token without its last two characters.\<close>

definition is_int :: "string \<Rightarrow> bool" where
  "is_int s \<longleftrightarrow> py_int s \<noteq> None"

definition before_colon :: "string \<Rightarrow> string" where
  "before_colon r = takeWhile (\<lambda>c. c \<noteq> CHR '':'') r"

definition strip_flag :: "string \<Rightarrow> string" where
  "strip_flag t = take (length t - 2) t"

text \<open>The non-negative values of a column, as a multiset.\<close>

definition nonneg_rows :: "int list \<Rightarrow> int multiset" where
  "nonneg_rows column = filter_mset (\<lambda>r. 0 \<le> r) (mset column)"

text \<open>The reader of the specification's words: a line loses its trailing line feed
  and nothing else.\<close>

definition chomp :: "string \<Rightarrow> string" where
  "chomp l = (if l \<noteq> [] \<and> last l = newline then butlast l else l)"

definition records_newline_trimmed :: "string \<Rightarrow> string \<Rightarrow> string list list" where
  "records_newline_trimmed sep text = records_from sep (map chomp (file_lines text)) []"

text \<open>The value of a run of decimal digits read after the value \<open>acc\<close>.\<close>

definition digits_value :: "int \<Rightarrow> string \<Rightarrow> int" where
  "digits_value acc ds = foldl (\<lambda>a c. 10 * a + digit_val c) acc ds"

text \<open>A body line and a header line of the old format, as \<open>toString\<close> writes them.\<close>

definition old_line :: "int list \<Rightarrow> string" where
  "old_line vs = py_join '' '' (map (\<lambda>r. py_str r @ '':0'') vs)"

definition old_header :: "int list \<Rightarrow> string" where
  "old_header hdr = py_join '','' (map py_str hdr)"

text \<open>The body lines of a serialized text: its lines after the header line.\<close>

definition body_lines :: "string \<Rightarrow> string list" where
  "body_lines text = tl (py_split newline text)"

section \<open>Properties\<close>

subsection \<open>Sorting and the built-ins\<close>

lemma sorted_map_uminus_rev: "sorted (ys::int list) \<Longrightarrow> sorted (map uminus (rev ys))"
  unfolding rev_map[symmetric] sorted_rev_iff_nth_mono by (auto simp: sorted_nth_mono)

lemma sort_desc_rev: "sort_desc xs = rev (sort xs)"
proof -
  have a: "sort (map uminus xs) = map uminus (sort_key uminus xs)"
    by (rule properties_for_sort) simp_all
  have b: "sort (map uminus xs) = map uminus (rev (sort xs))"
    by (rule properties_for_sort) (simp_all add: sorted_map_uminus_rev)
  from a b have "map uminus (sort_key uminus xs) = map uminus (rev (sort xs))" by simp
  then show ?thesis unfolding sort_desc_def by (simp add: inj_map_eq_map inj_on_def)
qed

lemma sort_desc_Nil_iff: "sort_desc c = [] \<longleftrightarrow> c = []"
  by (metis length_0_conv length_sort sort_desc_def)

lemma last_sorted_Max: "sorted (ys::int list) \<Longrightarrow> ys \<noteq> [] \<Longrightarrow> last ys = Max (set ys)"
proof (induction ys)
  case Nil
  then show ?case by simp
next
  case (Cons y ys)
  show ?case
  proof (cases "ys = []")
    case True
    then show ?thesis by simp
  next
    case False
    with Cons have "last ys = Max (set ys)" by simp
    moreover from Cons.prems False have "y \<le> Max (set ys)"
      by (cases ys) (auto simp: Max_ge_iff)
    ultimately show ?thesis using False by (simp add: max_def)
  qed
qed

lemma hd_sort_desc: "c \<noteq> [] \<Longrightarrow> hd (sort_desc c) = Max (set c)"
proof -
  assume ne: "c \<noteq> []"
  then have sne: "sort c \<noteq> []" by (metis length_0_conv length_sort)
  have "hd (sort_desc c) = last (sort c)" using sne by (simp add: sort_desc_rev hd_rev)
  also have "\<dots> = Max (set (sort c))" using sne by (simp add: last_sorted_Max)
  finally show ?thesis by simp
qed

lemma traverse_Inr_iff: "traverse f xs = Inr ys \<longleftrightarrow> map f xs = map Inr ys"
proof (induction xs arbitrary: ys)
  case Nil
  then show ?case by auto
next
  case (Cons x xs)
  show ?case
  proof (cases "f x")
    case (Inl e)
    then show ?thesis by (auto simp: Cons_eq_map_conv)
  next
    case (Inr y)
    show ?thesis
    proof (cases "traverse f xs")
      case (Inl e)
      with Cons[of "_"] have "\<And>zs. map f xs \<noteq> map Inr zs" by simp
      with Inl Inr show ?thesis by (auto simp: Cons_eq_map_conv)
    next
      case r: (Inr zs)
      with Cons[of zs] have "map f xs = map Inr zs" by simp
      with r Inr show ?thesis by (auto simp: Cons_eq_map_conv inj_map_eq_map)
    qed
  qed
qed

lemma py_max_Max: "xs \<noteq> [] \<Longrightarrow> py_max xs = Inr (Max (set xs))"
  by (cases xs) (simp_all add: py_max_def Max.set_eq_fold[symmetric] del: set_simps)

lemma traverse_length: "traverse f xs = Inr ys \<Longrightarrow> length ys = length xs"
  by (metis traverse_Inr_iff length_map)

lemma traverse_first: "[] \<notin> set cols \<Longrightarrow> traverse first cols = Inr (map hd cols)"
  by (induction cols) (auto simp: first_def split: list.splits)

lemma traverse_first_empty: "[] \<in> set cols \<Longrightarrow> traverse first cols = Inl IndexError"
  by (induction cols) (auto simp: first_def split: list.splits sum.splits)

lemma calc_max_row_cases:
  "calc_max_row (Board_init n0 k0 chips g) =
     (if chips = [] then Inl ValueError
      else if [] \<in> set chips then Inl IndexError
      else Inr (Max (set (map column_max chips))))"
proof -
  consider "chips = []" | "chips \<noteq> []" "[] \<in> set chips" | "chips \<noteq> []" "[] \<notin> set chips"
    by blast
  then show ?thesis
  proof cases
    case 1
    then show ?thesis by (simp add: calc_max_row_def Board_init_def py_max_def)
  next
    case 2
    then have "sort_desc [] \<in> sort_desc ` set chips" by blast
    then have "[] \<in> set (map sort_desc chips)" by (simp add: sort_desc_def)
    then show ?thesis using 2
      by (simp add: calc_max_row_def Board_init_def traverse_first_empty del: set_map)
  next
    case 3
    have ne: "[] \<notin> set (map sort_desc chips)"
    proof
      assume "[] \<in> set (map sort_desc chips)"
      then obtain c where "c \<in> set chips" "sort_desc c = []" by (auto simp: image_iff)
      with 3 show False by (simp add: sort_desc_Nil_iff)
    qed
    have hds: "map hd (map sort_desc chips) = map column_max chips"
      using 3 by (auto simp: column_max_def intro!: hd_sort_desc)
    have "calc_max_row (Board_init n0 k0 chips g) = py_max (map hd (map sort_desc chips))"
      using traverse_first[OF ne] by (simp add: calc_max_row_def Board_init_def)
    also have "\<dots> = Inr (Max (set (map column_max chips)))"
      unfolding hds using 3 by (simp add: py_max_Max del: set_map)
    finally show ?thesis using 3 by simp
  qed
qed

lemma desc_first_column_max: "c \<noteq> [] \<Longrightarrow> desc_first c = column_max c"
  using hd_sort_desc[of c] by (simp add: desc_first_def column_max_def sort_desc_rev)

lemma traverse_Inl_iff:
  "(\<exists>e. traverse f xs = Inl e) \<longleftrightarrow> (\<exists>x\<in>set xs. \<exists>e. f x = Inl e)"
  by (induction xs) (auto split: sum.splits)

lemma py_split_ne: "py_split c s \<noteq> []"
  by (cases s) (simp_all split: list.split)

lemma traverse_tokens_ne:
  assumes "traverse (\<lambda>column. traverse f (py_split c column)) rest = Inr chips"
  shows "[] \<notin> set chips"
  using assms
proof (induction rest arbitrary: chips)
  case Nil
  then show ?case by auto
next
  case (Cons l rest)
  from Cons.prems obtain col cols where
    col: "traverse f (py_split c l) = Inr col" and
    cols: "traverse (\<lambda>column. traverse f (py_split c column)) rest = Inr cols" and
    chips: "chips = col # cols"
    by (auto split: sum.splits)
  from col have "length col = length (py_split c l)" by (rule traverse_length)
  then have "col \<noteq> []" using py_split_ne[of c l] by auto
  with Cons.IH[OF cols] chips show ?case by auto
qed

lemma fromString_shape:
  assumes "fromString dt lines = Inr b"
  shows "\<exists>n0 k0 chips g. b = Board_init n0 k0 chips g \<and> [] \<notin> set chips
           \<and> Suc (length chips) = length lines"
proof (cases lines)
  case Nil
  with assms show ?thesis by (cases dt) (simp_all add: fromString_def)
next
  case (Cons header rest)
  show ?thesis
  proof (cases dt)
    case OLD
    with assms Cons obtain hdr chips where
      c: "traverse (\<lambda>column. traverse old_token (py_split CHR '' '' column)) rest = Inr chips"
      and b: "b = Board_init (hdr ! 0) (hdr ! 1) chips (hdr ! 2)"
      by (auto simp: fromString_def split: sum.splits)
    from c have "length chips = length rest" by (rule traverse_length)
    with traverse_tokens_ne[OF c] b Cons show ?thesis by auto
  next
    case NEW
    with assms Cons obtain hdr chips where
      c: "traverse (\<lambda>column. traverse int_of (py_split CHR '' '' column)) rest = Inr chips"
      and b: "b = Board_init (hdr ! 0) (hdr ! 1) chips 0"
      by (auto simp: fromString_def split: sum.splits)
    from c have "length chips = length rest" by (rule traverse_length)
    with traverse_tokens_ne[OF c] b Cons show ?thesis by auto
  qed
qed

lemma Board_init_goal: "(Board_init n0 k0 chips g)\<lparr>goal := g'\<rparr> = Board_init n0 k0 chips g'"
  by (simp add: Board_init_def)

lemma toString_OLD_Inl: "toString b OLD = Inl e \<longleftrightarrow> calc_max_row b = Inl e"
  by (simp add: toString_def split: sum.splits)

lemma toString_OLD_Inr_ex: "(\<exists>s. toString b OLD = Inr s) \<longleftrightarrow> (\<exists>m. calc_max_row b = Inr m)"
  by (simp add: toString_def split: sum.splits)

subsection \<open>Splitting and joining\<close>

lemma py_split_no_sep: "c \<notin> set s \<Longrightarrow> py_split c s = [s]"
  by (induction s) auto

lemma py_split_append_sep:
  "c \<notin> set s \<Longrightarrow> py_split c (s @ c # t) = s # py_split c t"
  by (induction s) auto

lemma hd_py_split: "hd (py_split c s) = takeWhile (\<lambda>x. x \<noteq> c) s"
  by (induction s) (auto split: list.splits simp: py_split_ne)

lemma py_join_Cons: "xs \<noteq> [] \<Longrightarrow> py_join sep (x # xs) = x @ sep @ py_join sep xs"
  by (cases xs) simp_all

lemma py_split_join:
  "xs \<noteq> [] \<Longrightarrow> \<forall>x\<in>set xs. c \<notin> set x \<Longrightarrow> py_split c (py_join [c] xs) = xs"
proof (induction xs)
  case Nil
  then show ?case by simp
next
  case (Cons x xs)
  show ?case
  proof (cases "xs = []")
    case True
    with Cons.prems show ?thesis by (simp add: py_split_no_sep)
  next
    case False
    with Cons show ?thesis by (simp add: py_join_Cons py_split_append_sep)
  qed
qed

subsection \<open>Integers and their text\<close>

lemma digit_char_is_digit: "d < 10 \<Longrightarrow> is_digit (digit_char d)"
proof -
  assume "d < 10"
  then have "d \<in> set [0, 1, 2, 3, 4, 5, 6, 7, 8, 9]" by (simp del: upt_rec_numeral) presburger
  moreover have "list_all (\<lambda>d. is_digit (digit_char d)) [0, 1, 2, 3, 4, 5, 6, 7, 8, 9]"
    by code_simp
  ultimately show ?thesis unfolding list_all_iff by blast
qed

lemma digit_val_digit_char: "d < 10 \<Longrightarrow> digit_val (digit_char d) = int d"
  by (simp add: digit_val_def digit_char_def)

lemma str_nat_digits: "c \<in> set (str_nat m) \<Longrightarrow> is_digit c"
proof (induction m arbitrary: c rule: str_nat.induct)
  case (1 m)
  show ?case
  proof (cases "m < 10")
    case True
    with "1.prems" show ?thesis by (simp add: str_nat.simps[of m] digit_char_is_digit)
  next
    case False
    with "1.prems" have "c \<in> set (str_nat (m div 10)) \<or> c = digit_char (m mod 10)"
      by (auto simp: str_nat.simps[of m])
    with False "1.IH" show ?thesis by (auto simp: digit_char_is_digit)
  qed
qed

lemma str_nat_ne: "str_nat m \<noteq> []"
  by (simp add: str_nat.simps[of m])

lemma digits_acc_digits:
  "\<forall>c\<in>set ds. is_digit c \<Longrightarrow> digits_acc ds False acc = Some (digits_value acc ds)"
  by (induction ds arbitrary: acc) (simp_all add: digits_value_def)

lemma parse_unsigned_digits:
  "ds \<noteq> [] \<Longrightarrow> \<forall>c\<in>set ds. is_digit c \<Longrightarrow> parse_unsigned ds = Some (digits_value 0 ds)"
  by (cases ds) (simp_all add: parse_unsigned_def digits_acc_digits, simp add: digits_value_def)

lemma digits_value_str_nat: "digits_value 0 (str_nat m) = int m"
proof (induction m rule: str_nat.induct)
  case (1 m)
  show ?case
  proof (cases "m < 10")
    case True
    then show ?thesis by (simp add: str_nat.simps[of m] digits_value_def digit_val_digit_char)
  next
    case False
    then have "digits_value 0 (str_nat m)
               = 10 * digits_value 0 (str_nat (m div 10)) + digit_val (digit_char (m mod 10))"
      by (simp add: str_nat.simps[of m] digits_value_def)
    also have "\<dots> = 10 * int (m div 10) + int (m mod 10)"
      using False "1.IH" by (simp add: digit_val_digit_char)
    also have "\<dots> = int m" by presburger
    finally show ?thesis .
  qed
qed

lemma parse_unsigned_str_nat: "parse_unsigned (str_nat m) = Some (int m)"
  using parse_unsigned_digits[of "str_nat m"] str_nat_digits[of _ m]
  by (simp add: str_nat_ne digits_value_str_nat)

lemma is_digit_not_space: "is_digit c \<Longrightarrow> \<not> is_int_space c"
  unfolding is_digit_def is_int_space_def by auto

lemma int_strip_id: "\<forall>c\<in>set s. \<not> is_int_space c \<Longrightarrow> int_strip s = s"
proof -
  assume a: "\<forall>c\<in>set s. \<not> is_int_space c"
  then have "dropWhile is_int_space s = s" by (cases s) auto
  moreover from a have "dropWhile is_int_space (rev s) = rev s" by (cases "rev s") auto
  ultimately show ?thesis by (simp add: int_strip_def)
qed

lemma py_str_chars: "c \<in> set (py_str i) \<Longrightarrow> is_digit c \<or> c = CHR ''-''"
  by (auto simp: py_str_def dest: str_nat_digits split: if_splits)

lemma minus_not_space: "\<not> is_int_space CHR ''-''"
  by (simp add: is_int_space_def)

lemma int_strip_py_str: "int_strip (py_str i) = py_str i"
  by (rule int_strip_id) (auto dest!: py_str_chars simp: is_digit_not_space minus_not_space)

lemma py_int_separator_char: "py_int [CHR 0x1C, CHR ''5''] = None"
  by code_simp

lemma py_int_py_str: "py_int (py_str i) = Some i"
proof (cases "i < 0")
  case True
  then show ?thesis
    using int_strip_py_str[of i] by (simp add: py_int_def py_str_def parse_unsigned_str_nat)
next
  case False
  obtain c cs where cs: "str_nat (nat i) = c # cs" using str_nat_ne[of "nat i"] by (cases "str_nat (nat i)") auto
  then have "is_digit c" using str_nat_digits[of c "nat i"] by simp
  then have "c \<noteq> CHR ''-''" "c \<noteq> CHR ''+''" by (auto simp: is_digit_def)
  with False cs show ?thesis
    using int_strip_py_str[of i] parse_unsigned_str_nat[of "nat i"]
    by (simp add: py_int_def py_str_def)
qed

lemma int_of_py_str: "int_of (py_str i) = Inr i"
  by (simp add: int_of_def py_int_py_str)

lemma py_str_no_char:
  "c \<in> set '', :='' \<or> c = newline \<Longrightarrow> c \<notin> set (py_str i)"
  by (auto dest!: py_str_chars simp: is_digit_def newline_def)

subsection \<open>Parsing with a condition\<close>

lemma int_of_cases: "int_of s = (if is_int s then Inr (the (py_int s)) else Inl ValueError)"
  by (auto simp: int_of_def is_int_def split: option.splits)

lemma old_token_cases:
  "old_token r = (if is_int (before_colon r) then Inr (the (py_int (before_colon r)))
                  else Inl ValueError)"
  by (simp add: old_token_def hd_py_split before_colon_def int_of_cases)

lemma traverse_cases:
  assumes "\<And>x. f x = (if P x then Inr (g x) else Inl ValueError)"
  shows "traverse f xs = (if list_all P xs then Inr (map g xs) else Inl ValueError)"
  by (induction xs) (simp_all add: assms)

lemma unpack_cases:
  assumes "\<And>x. f x = (if P x then Inr (g x) else Inl ValueError)"
  shows "unpack m f xs = (if length xs = m \<and> list_all P xs then Inr (map g xs) else Inl ValueError)"
proof (induction xs arbitrary: m)
  case Nil
  then show ?case by (cases m) simp_all
next
  case (Cons x xs)
  then show ?case by (cases m) (auto simp: assms)
qed

subsection \<open>The reading loop\<close>

lemma fromString_Nil: "fromString dt [] = Inl IndexError"
  by (cases dt) (simp_all add: fromString_def)







lemma main_fails: "file_to_boards args fs = Inl e \<Longrightarrow> main args fs = (Some e, fs)"
  by (simp add: main_def)

lemma read_loop_records:
  "(case read_loop dt sep ls buffer boards of
      Inl e \<Rightarrow> Inl e
    | Inr (buf, bs) \<Rightarrow>
        if length buf > 0
        then (case fromString dt buf of Inl e \<Rightarrow> Inl e | Inr b \<Rightarrow> Inr (bs @ [b]))
        else Inr bs)
   = (case traverse (fromString dt) (records_from sep (map py_strip ls) buffer) of
        Inl e \<Rightarrow> Inl e
      | Inr bs \<Rightarrow> Inr (boards @ bs))"
proof (induction ls arbitrary: buffer boards)
  case Nil
  then show ?case by (simp split: sum.splits)
next
  case (Cons l ls)
  show ?case
  proof (cases "py_strip l = sep")
    case False
    then show ?thesis using Cons[of "buffer @ [py_strip l]" boards] by simp
  next
    case True
    show ?thesis
    proof (cases "fromString dt buffer")
      case (Inl e)
      with True show ?thesis by simp
    next
      case (Inr b)
      with True show ?thesis using Cons[of "[]" "boards @ [b]"]
        by (simp split: sum.splits)
    qed
  qed
qed

lemma boards_of_text_records:
  "boards_of_text dt sep text = traverse (fromString dt) (records sep text)"
  using read_loop_records[of dt sep "file_lines text" "[]" "[]"]
  by (simp add: boards_of_text_def records_def split: sum.splits)

subsection \<open>Serialized text\<close>

lemma filter_sort_length: "length (filter P (sort_asc c)) = length (filter P c)"
proof -
  have "mset (filter P (sort c)) = mset (filter P c)" by simp
  then show ?thesis unfolding sort_asc_def by (metis size_mset)
qed

lemma calc_num_chips_num_nonneg: "calc_num_chips (Board_init n0 k0 chips g) = num_nonneg chips"
  by (induction chips)
    (simp_all add: calc_num_chips_def Board_init_def num_nonneg_def filter_sort_length)

lemma toString_NEW_eq:
  "toString b NEW = Inr (''n='' @ py_str (n b) @ '',k='' @ py_str (k b)
               @ '',n_chips='' @ py_str (calc_num_chips b)
               @ [newline] @ py_join [newline] (new_body_lines b))"
  by (simp add: toString_def)

lemma toString_OLD_eq:
  "calc_max_row b = Inr m \<Longrightarrow>
   toString b OLD = Inr (py_str (n b) @ '','' @ py_str (k b) @ '','' @ py_str (goal b)
                    @ '','' @ py_str m @ '','' @ py_str (calc_num_chips b)
                    @ [newline] @ py_join [newline] (old_body_lines b))"
  by (simp add: toString_def)

lemma Board_init_sel:
  "n (Board_init n0 k0 chips g) = n0" "k (Board_init n0 k0 chips g) = k0"
  "goal (Board_init n0 k0 chips g) = g"
  "chips_asc (Board_init n0 k0 chips g) = map sort_asc chips"
  "chips_desc (Board_init n0 k0 chips g) = map sort_desc chips"
  by (simp_all add: Board_init_def)

lemma strip_flag_token: "strip_flag (py_str r @ '':0'') = py_str r"
  by (simp add: strip_flag_def)

lemma token_no_space: "CHR '' '' \<notin> set (py_str r @ '':0'')"
  using py_str_no_char[of "CHR '' ''" r] by simp

lemma py_split_join_tokens:
  "\<forall>x\<in>set xs. c \<notin> set x \<Longrightarrow> py_split c (py_join [c] xs) = (if xs = [] then [[]] else xs)"
  by (simp add: py_split_join)

subsection \<open>Reading back the old format\<close>

lemma sort_asc_idem: "sort_asc (sort_asc c) = sort_asc c"
  by (simp add: sort_asc_def sort_key_id_if_sorted)

lemma sort_desc_sort_asc: "sort_desc (sort_asc c) = sort_desc c"
  by (simp add: sort_desc_rev sort_asc_def sort_key_id_if_sorted)

lemma Board_init_sorted: "Board_init n0 k0 (map sort_asc chips) g = Board_init n0 k0 chips g"
  by (simp add: Board_init_def sort_asc_idem sort_desc_sort_asc)

lemma old_token_py_str: "old_token (py_str r @ '':0'') = Inr r"
proof -
  have "CHR '':'' \<notin> set (py_str r)" by (rule py_str_no_char) simp
  then have "py_split CHR '':'' (py_str r @ CHR '':'' # ''0'') = py_str r # py_split CHR '':'' ''0''"
    by (rule py_split_append_sep)
  then show ?thesis by (simp add: old_token_def int_of_py_str)
qed

lemma traverse_map_Inr: "(\<And>x. x \<in> set xs \<Longrightarrow> f (h x) = Inr (g x)) \<Longrightarrow> traverse f (map h xs) = Inr (map g xs)"
  by (induction xs) simp_all

lemma traverse_old_tokens: "traverse old_token (map (\<lambda>r. py_str r @ '':0'') vs) = Inr vs"
  using traverse_map_Inr[of vs old_token "\<lambda>r. py_str r @ '':0''" "\<lambda>r. r"]
  by (simp add: old_token_py_str)

lemma parse_old_line:
  assumes "vs \<noteq> []"
  shows "traverse old_token (py_split CHR '' '' (old_line vs)) = Inr vs"
proof -
  have "py_split CHR '' '' (old_line vs) = map (\<lambda>r. py_str r @ '':0'') vs"
    unfolding old_line_def using assms token_no_space
    by (intro py_split_join) auto
  then show ?thesis by (simp add: traverse_old_tokens)
qed

lemma parse_old_lines:
  assumes "[] \<notin> set cols"
  shows "traverse (\<lambda>column. traverse old_token (py_split CHR '' '' column)) (map old_line cols)
         = Inr cols"
proof -
  have "traverse (\<lambda>column. traverse old_token (py_split CHR '' '' column)) (map old_line cols)
         = Inr (map (\<lambda>c. c) cols)"
  proof (rule traverse_map_Inr)
    fix x assume "x \<in> set cols"
    with assms have "x \<noteq> []" by auto
    then show "traverse old_token (py_split CHR '' '' (old_line x)) = Inr x"
      by (rule parse_old_line)
  qed
  then show ?thesis by simp
qed

lemma set_py_join: "c \<in> set (py_join sep xs) \<Longrightarrow> c \<in> set sep \<or> (\<exists>x\<in>set xs. c \<in> set x)"
proof (induction xs)
  case Nil
  then show ?case by simp
next
  case (Cons x xs)
  then show ?case by (cases "xs = []") (auto simp: py_join_Cons)
qed

lemma old_line_no_newline: "newline \<notin> set (old_line vs)"
proof
  assume "newline \<in> set (old_line vs)"
  then have "newline \<in> set '' '' \<or> (\<exists>x\<in>set (map (\<lambda>r. py_str r @ '':0'') vs). newline \<in> set x)"
    unfolding old_line_def by (rule set_py_join)
  then obtain r where "newline \<in> set (py_str r @ '':0'')" by (auto simp: newline_def)
  then have "newline \<in> set (py_str r)" by (auto simp: newline_def)
  then show False using py_str_no_char[of newline r] by simp
qed

lemma old_header_no_newline: "newline \<notin> set (old_header hdr)"
proof
  assume "newline \<in> set (old_header hdr)"
  then have "newline \<in> set '','' \<or> (\<exists>x\<in>set (map py_str hdr). newline \<in> set x)"
    unfolding old_header_def by (rule set_py_join)
  then obtain r where "newline \<in> set (py_str r)" by (auto simp: newline_def)
  then show False using py_str_no_char[of newline r] by simp
qed

lemma parse_old_header:
  "unpack 5 int_of (py_split CHR '','' (old_header [a, b, c, d, e])) = Inr [a, b, c, d, e]"
proof -
  have "\<forall>x\<in>set (map py_str [a, b, c, d, e]). CHR '','' \<notin> set x"
    using py_str_no_char[of "CHR '',''"] by simp
  then have "py_split CHR '','' (old_header [a, b, c, d, e]) = map py_str [a, b, c, d, e]"
    unfolding old_header_def by (intro py_split_join) simp_all
  then show ?thesis by (simp add: eval_nat_numeral int_of_py_str)
qed

lemma fromString_old_text:
  assumes "[] \<notin> set cols"
  shows "fromString OLD (old_header [a, b, c, d, e] # map old_line cols) = Inr (Board_init a b cols c)"
  unfolding fromString_def by (simp add: parse_old_header parse_old_lines[OF assms])

lemma toString_old_text:
  assumes "chips \<noteq> []" and "[] \<notin> set chips"
  shows "toString (Board_init n0 k0 chips g) OLD =
     Inr (py_join [newline]
            (old_header [n0, k0, g, max_of_columns chips, num_nonneg chips]
             # map old_line (map sort_asc chips)))"
proof -
  have m: "calc_max_row (Board_init n0 k0 chips g) = Inr (max_of_columns chips)"
    using assms by (simp add: calc_max_row_cases max_of_columns_def)
  have "map old_line (map sort_asc chips) \<noteq> []" using assms by simp
  then show ?thesis
    unfolding toString_OLD_eq[OF m]
    by (simp add: py_join_Cons old_header_def old_line_def old_body_lines_def Board_init_sel
        calc_num_chips_num_nonneg comp_def)
qed

subsection \<open>Body lines of the serialized texts\<close>

lemma body_line_tokens:
  assumes "i < length chips"
  shows "length (old_body_lines (Board_init n0 k0 chips g)) = length chips
   \<and> length (new_body_lines (Board_init n0 k0 chips g)) = length chips
   \<and> old_body_lines (Board_init n0 k0 chips g) ! i
       = py_join '' '' (map (\<lambda>r. py_str r @ '':0'') (sort (chips ! i)))
   \<and> new_body_lines (Board_init n0 k0 chips g) ! i
       = py_join '' '' (map py_str (rev (sort (chips ! i))))
   \<and> map strip_flag (py_split CHR '' '' (old_body_lines (Board_init n0 k0 chips g) ! i))
       = rev (py_split CHR '' '' (new_body_lines (Board_init n0 k0 chips g) ! i))"
proof -
  let ?b = "Board_init n0 k0 chips g"
  let ?vs = "sort (chips ! i)"
  have o: "old_body_lines ?b ! i = py_join '' '' (map (\<lambda>r. py_str r @ '':0'') ?vs)"
    using assms by (simp add: old_body_lines_def Board_init_sel sort_asc_def)
  have n: "new_body_lines ?b ! i = py_join '' '' (map py_str (rev ?vs))"
    using assms by (simp add: new_body_lines_def Board_init_sel sort_desc_rev)
  have so: "py_split CHR '' '' (py_join '' '' (map (\<lambda>r. py_str r @ '':0'') ?vs))
            = (if ?vs = [] then [[]] else map (\<lambda>r. py_str r @ '':0'') ?vs)"
    using py_split_join_tokens[of "map (\<lambda>r. py_str r @ '':0'') ?vs" "CHR '' ''"] token_no_space
    by auto
  have sn: "py_split CHR '' '' (py_join '' '' (map py_str (rev ?vs)))
            = (if ?vs = [] then [[]] else map py_str (rev ?vs))"
    using py_split_join_tokens[of "map py_str (rev ?vs)" "CHR '' ''"] py_str_no_char[of "CHR '' ''"]
    by auto
  have r: "map strip_flag (py_split CHR '' '' (old_body_lines ?b ! i))
       = rev (py_split CHR '' '' (new_body_lines ?b ! i))"
    unfolding o n so sn
    by (simp add: strip_flag_token comp_def rev_map strip_flag_def)
  have l: "length (old_body_lines ?b) = length chips" "length (new_body_lines ?b) = length chips"
    by (simp_all add: old_body_lines_def new_body_lines_def Board_init_sel)
  from l o n r show ?thesis by (intro conjI)
qed

lemma py_str_no_newline: "newline \<notin> set (py_str i)"
  by (rule py_str_no_char) simp

lemma split_text:
  assumes "newline \<notin> set h" and "body \<noteq> []" and "\<forall>x\<in>set body. newline \<notin> set x"
  shows "py_split newline (h @ [newline] @ py_join [newline] body) = h # body"
  using assms by (simp add: py_split_append_sep py_split_join)

lemma new_line_no_newline: "newline \<notin> set (py_join '' '' (map py_str vs))"
proof
  assume "newline \<in> set (py_join '' '' (map py_str vs))"
  then have "newline \<in> set '' '' \<or> (\<exists>x\<in>set (map py_str vs). newline \<in> set x)"
    by (rule set_py_join)
  then show False using py_str_no_newline by (auto simp: newline_def)
qed

lemma new_body_lines_no_newline: "\<forall>x\<in>set (new_body_lines b). newline \<notin> set x"
  by (auto simp: new_body_lines_def new_line_no_newline)

lemma old_body_lines_no_newline: "\<forall>x\<in>set (old_body_lines b). newline \<notin> set x"
  using old_line_no_newline by (auto simp: old_body_lines_def old_line_def)

lemma body_lines_NEW:
  assumes "chips_desc b \<noteq> []"
  shows "\<exists>text. toString b NEW = Inr text \<and> body_lines text = new_body_lines b"
proof -
  let ?h = "''n='' @ py_str (n b) @ '',k='' @ py_str (k b) @ '',n_chips='' @ py_str (calc_num_chips b)"
  have h: "newline \<notin> set ?h" using py_str_no_newline by (simp add: newline_def)
  have ne: "new_body_lines b \<noteq> []" using assms by (simp add: new_body_lines_def)
  have "py_split newline (?h @ [newline] @ py_join [newline] (new_body_lines b)) = ?h # new_body_lines b"
    using h ne new_body_lines_no_newline by (rule split_text)
  then have "body_lines (?h @ [newline] @ py_join [newline] (new_body_lines b)) = new_body_lines b"
    by (simp only: body_lines_def list.sel)
  moreover have "toString b NEW = Inr (?h @ [newline] @ py_join [newline] (new_body_lines b))"
    by (simp add: toString_NEW_eq)
  ultimately show ?thesis by blast
qed

lemma body_lines_OLD:
  assumes "chips_asc b \<noteq> []" and "toString b OLD = Inr text"
  shows "body_lines text = old_body_lines b"
proof -
  from assms(2) obtain m where m: "calc_max_row b = Inr m"
    using toString_OLD_Inr_ex[of b] by blast
  let ?h = "py_str (n b) @ '','' @ py_str (k b) @ '','' @ py_str (goal b)
                    @ '','' @ py_str m @ '','' @ py_str (calc_num_chips b)"
  have h: "newline \<notin> set ?h" using py_str_no_newline by (simp add: newline_def)
  have ne: "old_body_lines b \<noteq> []" using assms(1) by (simp add: old_body_lines_def)
  have "py_split newline (?h @ [newline] @ py_join [newline] (old_body_lines b)) = ?h # old_body_lines b"
    using h ne old_body_lines_no_newline by (rule split_text)
  then have "body_lines (?h @ [newline] @ py_join [newline] (old_body_lines b)) = old_body_lines b"
    by (simp only: body_lines_def list.sel)
  moreover have "text = ?h @ [newline] @ py_join [newline] (old_body_lines b)"
    using assms(2) unfolding toString_OLD_eq[OF m] by simp
  ultimately show ?thesis by simp
qed

subsection \<open>The derived field maxRow\<close>

text \<open>
  C2 (as amended). On a Board with at least one column and no empty column, the derived
  maxRow is the maximum (not the minimum), across columns, of each column's first element
  after sorting that column in descending order. With no column \<^verbatim>\<open>max\<close> raises
  \<^verbatim>\<open>ValueError\<close>, and an empty column makes \<^verbatim>\<open>column[0]\<close> raise \<^verbatim>\<open>IndexError\<close>.
\<close>

theorem calc_max_row_is_max_first_desc:
  "calc_max_row (Board_init n0 k0 chips g) =
     (if chips = [] then Inl ValueError
      else if [] \<in> set chips then Inl IndexError
      else Inr (max_first_desc chips))"
proof -
  have "[] \<notin> set chips \<Longrightarrow> map desc_first chips = map column_max chips"
    by (rule map_cong) (auto intro: desc_first_column_max)
  then show ?thesis unfolding calc_max_row_cases max_first_desc_def by presburger
qed

theorem calc_max_row_is_max_first_desc_witness:
  "calc_max_row (Board_init 3 2 [[1, 0], [2, 5, 4]] 0) = Inr 5"
proof -
  have "max_first_desc [[1, 0], [2, 5, 4]] = 5"
    by (simp add: max_first_desc_def desc_first_def)
  then show ?thesis
    using calc_max_row_is_max_first_desc[of 3 2 "[[1, 0], [2, 5, 4]]" 0] by simp
qed

text \<open>
  C2 as stated fails: on the two columns \<open>[1]\<close> and \<open>[2]\<close> the field is 2, while the
  minimum of the first elements is 1.
\<close>

theorem calc_max_row_not_min_first_desc:
  "calc_max_row (Board_init 3 2 [[1], [2]] 0) \<noteq> Inr (min_first_desc [[1], [2]])"
  by (simp add: calc_max_row_def Board_init_def sort_desc_def first_def py_max_def
      min_first_desc_def desc_first_def)

subsection \<open>Serialization and failure\<close>

text \<open>
  C9 (as amended). Serialization to the new format always returns a text block.
  Serialization to the old format returns a text block exactly when the Board has at
  least one column and no empty column: with zero columns it raises \<^verbatim>\<open>ValueError\<close>
  (from \<^verbatim>\<open>max\<close>), with an empty column \<^verbatim>\<open>IndexError\<close> (from \<^verbatim>\<open>column[0]\<close>).
  The parser builds no empty column, so on a Board built by the parser, whatever goal is
  set afterwards, serialization to the old format succeeds exactly when the record has
  at least one column line, and raises \<^verbatim>\<open>ValueError\<close> on a record that is a header
  alone.
\<close>

theorem toString_total_cases:
  "(\<exists>s. toString (Board_init n0 k0 chips g) NEW = Inr s)
   \<and> (toString (Board_init n0 k0 chips g) OLD = Inl ValueError \<longleftrightarrow> chips = [])
   \<and> (toString (Board_init n0 k0 chips g) OLD = Inl IndexError \<longleftrightarrow> chips \<noteq> [] \<and> [] \<in> set chips)
   \<and> ((\<exists>s. toString (Board_init n0 k0 chips g) OLD = Inr s) \<longleftrightarrow> chips \<noteq> [] \<and> [] \<notin> set chips)
   \<and> (fromString dt lines = Inr b \<longrightarrow>
        (\<exists>s. toString (b\<lparr>goal := g'\<rparr>) NEW = Inr s)
        \<and> ((\<exists>s. toString (b\<lparr>goal := g'\<rparr>) OLD = Inr s) \<longleftrightarrow> 2 \<le> length lines)
        \<and> (toString (b\<lparr>goal := g'\<rparr>) OLD = Inl ValueError \<longleftrightarrow> length lines = 1))"
proof -
  have new: "\<And>b. \<exists>s. toString b NEW = Inr s" by (simp add: toString_def)
  have a: "toString (Board_init n0 k0 chips g) OLD = Inl ValueError \<longleftrightarrow> chips = []" for n0 k0 chips g
    by (simp add: toString_OLD_Inl calc_max_row_cases)
  have b: "toString (Board_init n0 k0 chips g) OLD = Inl IndexError \<longleftrightarrow> chips \<noteq> [] \<and> [] \<in> set chips"
    by (simp add: toString_OLD_Inl calc_max_row_cases)
  have c: "(\<exists>s. toString (Board_init n0 k0 chips g) OLD = Inr s) \<longleftrightarrow> chips \<noteq> [] \<and> [] \<notin> set chips"
    for n0 k0 chips g
    by (simp add: toString_OLD_Inr_ex calc_max_row_cases)
  have d: "(\<exists>s. toString (b\<lparr>goal := g'\<rparr>) OLD = Inr s) \<longleftrightarrow> 2 \<le> length lines"
       "toString (b\<lparr>goal := g'\<rparr>) OLD = Inl ValueError \<longleftrightarrow> length lines = 1"
    if "fromString dt lines = Inr b"
  proof -
    from fromString_shape[OF that] obtain n1 k1 chips1 g1 where
      s: "b = Board_init n1 k1 chips1 g1" "[] \<notin> set chips1" "Suc (length chips1) = length lines"
      by blast
    then have e: "chips1 \<noteq> [] \<longleftrightarrow> 2 \<le> length lines" "chips1 = [] \<longleftrightarrow> length lines = 1"
      by (cases chips1; auto)+
    show "(\<exists>s. toString (b\<lparr>goal := g'\<rparr>) OLD = Inr s) \<longleftrightarrow> 2 \<le> length lines"
      using s e by (simp add: Board_init_goal c)
    show "toString (b\<lparr>goal := g'\<rparr>) OLD = Inl ValueError \<longleftrightarrow> length lines = 1"
      using s e by (simp add: Board_init_goal a)
  qed
  show ?thesis
  proof (intro conjI impI)
    show "\<exists>s. toString (Board_init n0 k0 chips g) NEW = Inr s" by (rule new)
    show "toString (Board_init n0 k0 chips g) OLD = Inl ValueError \<longleftrightarrow> chips = []" by (rule a)
    show "toString (Board_init n0 k0 chips g) OLD = Inl IndexError \<longleftrightarrow> chips \<noteq> [] \<and> [] \<in> set chips"
      by (rule b)
    show "(\<exists>s. toString (Board_init n0 k0 chips g) OLD = Inr s) \<longleftrightarrow> chips \<noteq> [] \<and> [] \<notin> set chips"
      by (rule c)
  next
    assume p: "fromString dt lines = Inr b"
    show "\<exists>s. toString (b\<lparr>goal := g'\<rparr>) NEW = Inr s" by (rule new)
    show "(\<exists>s. toString (b\<lparr>goal := g'\<rparr>) OLD = Inr s) \<longleftrightarrow> 2 \<le> length lines" by (rule d(1)[OF p])
    show "toString (b\<lparr>goal := g'\<rparr>) OLD = Inl ValueError \<longleftrightarrow> length lines = 1" by (rule d(2)[OF p])
  qed
qed

theorem toString_total_cases_witness:
  "fromString NEW [''n=2,k=1,n_chips=1'', ''4 -1''] = Inr (Board_init 2 1 [[4, -1]] 0)
   \<and> (\<exists>s. toString ((Board_init 2 1 [[4, -1]] 0)\<lparr>goal := 7\<rparr>) NEW = Inr s)
   \<and> (\<exists>s. toString ((Board_init 2 1 [[4, -1]] 0)\<lparr>goal := 7\<rparr>) OLD = Inr s)"
proof -
  have p: "fromString NEW [''n=2,k=1,n_chips=1'', ''4 -1''] = Inr (Board_init 2 1 [[4, -1]] 0)"
    by code_simp
  have "(\<exists>s. toString ((Board_init 2 1 [[4, -1]] 0)\<lparr>goal := 7\<rparr>) NEW = Inr s)
     \<and> (\<exists>s. toString ((Board_init 2 1 [[4, -1]] 0)\<lparr>goal := 7\<rparr>) OLD = Inr s)"
    using p toString_total_cases[of 2 1 "[[4, -1]]" 7 NEW "[''n=2,k=1,n_chips=1'', ''4 -1'']"
        "Board_init 2 1 [[4, -1]] 0" 7]
    by simp
  with p show ?thesis by (intro conjI) simp_all
qed

text \<open>
  C9 as stated fails: the new-format record made of a header alone is parsed into a
  Board with zero columns, and serializing that Board to the old format raises
  \<^verbatim>\<open>ValueError\<close>.
\<close>

theorem toString_old_fails_on_parsed_board:
  "fromString NEW [''n=1,k=1,n_chips=0''] = Inr (Board_init 1 1 [] 0)
   \<and> toString (Board_init 1 1 [] 0) OLD = Inl ValueError"
  by code_simp

subsection \<open>Separator lines and empty records\<close>



subsection \<open>All or nothing\<close>

text \<open>
  C1. When the input file has a record that fails to parse, \<open>file_to_boards\<close> raises
  and the main program ends before \<open>boards_to_file\<close> opens the output file: the
  files are left as they were, so nothing is written.
\<close>

theorem failed_record_writes_nothing:
  assumes "fs (arg_in args) = Some text"
    and "r \<in> set (records (in_separator args) text)"
    and "fromString (in_datatype args) r = Inl e"
  shows "\<exists>e'. file_to_boards args fs = Inl e' \<and> main args fs = (Some e', fs)"
proof -
  from assms(2,3) have "\<exists>e'. traverse (fromString (in_datatype args)) (records (in_separator args) text) = Inl e'"
    unfolding traverse_Inl_iff by blast
  then obtain e' where "boards_of_text (in_datatype args) (in_separator args) text = Inl e'"
    unfolding boards_of_text_records ..
  with assms(1) have f: "file_to_boards args fs = Inl e'" by (simp add: file_to_boards_def)
  then have "main args fs = (Some e', fs)" by (rule main_fails)
  with f show ?thesis by blast
qed

theorem failed_record_writes_nothing_witness:
  "\<exists>e'. main
     \<lparr>arg_in = ''in'', arg_out = ''out'', arg_direction = ''old-to-new'', arg_goal = None,
      arg_isep = Some ''---'', arg_osep = Some ''---''\<rparr>
     [''in'' \<mapsto> ''1,1,0,0,1'' @ [newline] @ ''5:0'' @ [newline] @ ''---'' @ [newline]
                 @ ''1,1,0,0,1'' @ [newline] @ ''6:0 '' @ [CHR 0x1C] @ ''5:0 7:0'' @ [newline],
      ''out'' \<mapsto> ''old text'']
   = (Some e',
      [''in'' \<mapsto> ''1,1,0,0,1'' @ [newline] @ ''5:0'' @ [newline] @ ''---'' @ [newline]
                 @ ''1,1,0,0,1'' @ [newline] @ ''6:0 '' @ [CHR 0x1C] @ ''5:0 7:0'' @ [newline],
       ''out'' \<mapsto> ''old text''])"
proof -
  let ?args = "\<lparr>arg_in = ''in'', arg_out = ''out'', arg_direction = ''old-to-new'',
      arg_goal = None, arg_isep = Some ''---'', arg_osep = Some ''---''\<rparr>"
  let ?text = "''1,1,0,0,1'' @ [newline] @ ''5:0'' @ [newline] @ ''---'' @ [newline]
                 @ ''1,1,0,0,1'' @ [newline] @ ''6:0 '' @ [CHR 0x1C] @ ''5:0 7:0'' @ [newline]"
  let ?r = "[''1,1,0,0,1'', ''6:0 '' @ [CHR 0x1C] @ ''5:0 7:0'']"
  have r: "records (in_separator ?args) ?text = [[''1,1,0,0,1'', ''5:0''], ?r]"
    by code_simp
  have f: "fromString (in_datatype ?args) ?r = Inl ValueError" by code_simp
  show ?thesis
    using r f failed_record_writes_nothing[of "[''in'' \<mapsto> ?text, ''out'' \<mapsto> ''old text'']"
        ?args ?text ?r ValueError]
    by auto
qed

subsection \<open>Parsing the old format\<close>

text \<open>
  C4 (as amended). On an empty list of lines old-format parsing raises \<^verbatim>\<open>IndexError\<close>.
  On a header and column lines it raises \<^verbatim>\<open>ValueError\<close> exactly when the header does
  not split at commas into exactly 5 strings that \<^verbatim>\<open>int\<close> accepts, or when for some
  token of some column line the text before its first colon (the whole token when it has
  no colon) is not accepted by \<^verbatim>\<open>int\<close>; otherwise it returns the Board of the first
  three header fields and the parsed columns. A token without a colon that is an integer
  is parsed.
\<close>

theorem fromString_old_cases:
  "fromString OLD [] = Inl IndexError
   \<and> fromString OLD (header # rest) =
     (if length (py_split CHR '','' header) = 5
         \<and> list_all is_int (py_split CHR '','' header)
         \<and> list_all (\<lambda>column. list_all (\<lambda>r. is_int (before_colon r)) (py_split CHR '' '' column)) rest
      then Inr (Board_init
                 (the (py_int (py_split CHR '','' header ! 0)))
                 (the (py_int (py_split CHR '','' header ! 1)))
                 (map (\<lambda>column. map (\<lambda>r. the (py_int (before_colon r))) (py_split CHR '' '' column)) rest)
                 (the (py_int (py_split CHR '','' header ! 2))))
      else Inl ValueError)"
proof -
  have h: "unpack 5 int_of (py_split CHR '','' header) =
      (if length (py_split CHR '','' header) = 5 \<and> list_all is_int (py_split CHR '','' header)
       then Inr (map (\<lambda>s. the (py_int s)) (py_split CHR '','' header)) else Inl ValueError)"
    by (rule unpack_cases) (rule int_of_cases)
  have c: "traverse old_token (py_split CHR '' '' column) =
      (if list_all (\<lambda>r. is_int (before_colon r)) (py_split CHR '' '' column)
       then Inr (map (\<lambda>r. the (py_int (before_colon r))) (py_split CHR '' '' column))
       else Inl ValueError)" for column
    by (rule traverse_cases) (rule old_token_cases)
  have b: "traverse (\<lambda>column. traverse old_token (py_split CHR '' '' column)) rest =
      (if list_all (\<lambda>column. list_all (\<lambda>r. is_int (before_colon r)) (py_split CHR '' '' column)) rest
       then Inr (map (\<lambda>column. map (\<lambda>r. the (py_int (before_colon r))) (py_split CHR '' '' column)) rest)
       else Inl ValueError)"
    by (rule traverse_cases) (rule c)
  have "fromString OLD (header # rest) =
     (if length (py_split CHR '','' header) = 5
         \<and> list_all is_int (py_split CHR '','' header)
         \<and> list_all (\<lambda>column. list_all (\<lambda>r. is_int (before_colon r)) (py_split CHR '' '' column)) rest
      then Inr (Board_init
                 (the (py_int (py_split CHR '','' header ! 0)))
                 (the (py_int (py_split CHR '','' header ! 1)))
                 (map (\<lambda>column. map (\<lambda>r. the (py_int (before_colon r))) (py_split CHR '' '' column)) rest)
                 (the (py_int (py_split CHR '','' header ! 2))))
      else Inl ValueError)"
    unfolding fromString_def by (simp add: h b)
  then show ?thesis by (simp add: fromString_Nil)
qed

theorem fromString_old_cases_witness:
  "fromString OLD [''3,2,1,9,9'', ''4:0 -1:1'', ''7''] = Inr (Board_init 3 2 [[4, -1], [7]] 1)
   \<and> fromString OLD [''3,2,1,9'', ''4:0''] = Inl ValueError
   \<and> fromString OLD [''3,2,1,9,9'', ''4:0 :1''] = Inl ValueError
   \<and> fromString OLD [''3,2,1,9,9'', ''4:0 '' @ [CHR 0x1C] @ ''5:0''] = Inl ValueError"
proof -
  have a: "fromString OLD [''3,2,1,9,9'', ''4:0 -1:1'', ''7''] = Inr (Board_init 3 2 [[4, -1], [7]] 1)"
    by (simp only: fromString_old_cases[of "''3,2,1,9,9''" "[''4:0 -1:1'', ''7'']"]) code_simp
  have b: "fromString OLD [''3,2,1,9'', ''4:0''] = Inl ValueError"
    by (simp only: fromString_old_cases[of "''3,2,1,9''" "[''4:0'']"]) code_simp
  have c: "fromString OLD [''3,2,1,9,9'', ''4:0 :1''] = Inl ValueError"
    by (simp only: fromString_old_cases[of "''3,2,1,9,9''" "[''4:0 :1'']"]) code_simp
  have d: "fromString OLD [''3,2,1,9,9'', ''4:0 '' @ [CHR 0x1C] @ ''5:0''] = Inl ValueError"
    by (simp only: fromString_old_cases[of "''3,2,1,9,9''" "[''4:0 '' @ [CHR 0x1C] @ ''5:0'']"])
      code_simp
  from a b c d show ?thesis by (intro conjI)
qed

text \<open>
  C4 as stated fails: the column token \<^verbatim>\<open>5\<close> has no colon and the record is parsed.
\<close>

theorem fromString_old_token_without_colon_parses:
  "CHR '':'' \<notin> set ''5'' \<and> fromString OLD [''1,1,0,0,1'', ''5''] = Inr (Board_init 1 1 [[5]] 0)"
  by code_simp

subsection \<open>The record reader and white space\<close>

text \<open>
  C5. The reader compares each line with the separator after \<^verbatim>\<open>strip\<close>, which removes
  white space at both ends, and keeps the stripped line. On the text below the line
  \<^verbatim>\<open>"  ---  "\<close> ends a record and the line \<^verbatim>\<open>" 5:0 "\<close> is kept as \<^verbatim>\<open>"5:0"\<close>, so two
  boards are read; a reader that trims the trailing line feed alone finds one record
  holding all five lines.
\<close>

theorem reader_strips_surrounding_white_space:
  "records ''---''
     (''1,1,0,0,1'' @ [newline] @ '' 5:0 '' @ [newline] @ ''  ---  '' @ [newline]
      @ ''2,1,0,0,1'' @ [newline] @ ''7:0'' @ [newline])
   = [[''1,1,0,0,1'', ''5:0''], [''2,1,0,0,1'', ''7:0'']]
   \<and> records_newline_trimmed ''---''
     (''1,1,0,0,1'' @ [newline] @ '' 5:0 '' @ [newline] @ ''  ---  '' @ [newline]
      @ ''2,1,0,0,1'' @ [newline] @ ''7:0'' @ [newline])
   = [[''1,1,0,0,1'', '' 5:0 '', ''  ---  '', ''2,1,0,0,1'', ''7:0'']]
   \<and> boards_of_text OLD ''---''
     (''1,1,0,0,1'' @ [newline] @ '' 5:0 '' @ [newline] @ ''  ---  '' @ [newline]
      @ ''2,1,0,0,1'' @ [newline] @ ''7:0'' @ [newline])
   = Inr [Board_init 1 1 [[5]] 0, Board_init 2 1 [[7]] 0]"
  by code_simp

subsection \<open>The old format\<close>

text \<open>
  C3 (as amended). For every Board with at least one column and no empty column,
  serializing it to the old format produces the header line \<^verbatim>\<open>n,k,goal,maxRow,numChips\<close>,
  where maxRow is the maximum, over all columns, of the column's largest value and
  numChips the number of values that are at least 0, followed by one body line for each
  column, with the values sorted ascending, each rendered as \<^verbatim>\<open>row:0\<close>, joined by
  spaces.
\<close>

theorem toString_old_format:
  assumes "chips \<noteq> []" and "[] \<notin> set chips"
  shows "toString (Board_init n0 k0 chips g) OLD =
     Inr (py_join '','' [py_str n0, py_str k0, py_str g, py_str (max_of_columns chips),
                         py_str (num_nonneg chips)]
          @ [newline]
          @ py_join [newline]
              (map (\<lambda>column. py_join '' '' (map (\<lambda>r. py_str r @ '':0'') (sort column))) chips))"
proof -
  have m: "calc_max_row (Board_init n0 k0 chips g) = Inr (max_of_columns chips)"
    using assms by (simp add: calc_max_row_cases max_of_columns_def)
  have b: "old_body_lines (Board_init n0 k0 chips g)
        = map (\<lambda>column. py_join '' '' (map (\<lambda>r. py_str r @ '':0'') (sort column))) chips"
    by (simp add: old_body_lines_def Board_init_sel sort_asc_def comp_def)
  show ?thesis
    unfolding toString_OLD_eq[OF m] b
    by (simp add: Board_init_sel calc_num_chips_num_nonneg)
qed

theorem toString_old_format_witness:
  "toString (Board_init 3 2 [[4, -1, 2], [7]] 5) OLD =
     Inr (''3,2,5,7,3'' @ [newline] @ ''-1:0 2:0 4:0'' @ [newline] @ ''7:0'')"
proof -
  have h: "[[4, -1, 2], [7::int]] \<noteq> []" "[] \<notin> set [[4, -1, 2], [7::int]]" by simp_all
  have e: "py_join '','' [py_str 3, py_str 2, py_str 5, py_str (max_of_columns [[4, -1, 2], [7]]),
                         py_str (num_nonneg [[4, -1, 2], [7]])]
          @ [newline]
          @ py_join [newline]
              (map (\<lambda>column. py_join '' '' (map (\<lambda>r. py_str r @ '':0'') (sort column)))
                 [[4, -1, 2], [7]])
         = ''3,2,5,7,3'' @ [newline] @ ''-1:0 2:0 4:0'' @ [newline] @ ''7:0''"
    by code_simp
  show ?thesis by (simp only: toString_old_format[OF h] e)
qed

text \<open>
  C3 as stated fails: a Board with the columns \<open>[1]\<close> and \<open>[]\<close> has a non-empty column,
  and serializing it to the old format raises \<^verbatim>\<open>IndexError\<close>.
\<close>

theorem toString_old_fails_with_an_empty_column:
  "[1::int] \<in> set [[1], []] \<and> [1::int] \<noteq> []
   \<and> toString (Board_init 1 2 [[1], []] 0) OLD = Inl IndexError"
  by code_simp

subsection \<open>The number of chips\<close>



subsection \<open>Ascending and descending bodies\<close>

text \<open>
  C8. For every Board and every column of it, serialization to the new format returns a
  text with one body line for each column, the line of the column listing its values in
  descending order; serialization to the old format returns a text exactly when no
  column is empty, and then that text has one body line for each column, the line of the
  column listing its values in ascending order, each followed by \<^verbatim>\<open>:0\<close>, and the
  tokens of this line without their last two characters are the tokens of the new
  format's line reversed. The body lines of a text are its lines after the header line.
\<close>

theorem body_lines_reversed:
  assumes "i < length chips"
  shows "\<exists>new_text. toString (Board_init n0 k0 chips g) NEW = Inr new_text
     \<and> length (body_lines new_text) = length chips
     \<and> body_lines new_text ! i = py_join '' '' (map py_str (rev (sort (chips ! i))))
     \<and> ((\<exists>old_text. toString (Board_init n0 k0 chips g) OLD = Inr old_text) \<longleftrightarrow> [] \<notin> set chips)
     \<and> (\<forall>old_text. toString (Board_init n0 k0 chips g) OLD = Inr old_text \<longrightarrow>
           length (body_lines old_text) = length chips
         \<and> body_lines old_text ! i = py_join '' '' (map (\<lambda>r. py_str r @ '':0'') (sort (chips ! i)))
         \<and> map strip_flag (py_split CHR '' '' (body_lines old_text ! i))
             = rev (py_split CHR '' '' (body_lines new_text ! i)))"
proof -
  let ?b = "Board_init n0 k0 chips g"
  from assms have ne: "chips \<noteq> []" by auto
  then have "chips_desc ?b \<noteq> []" "chips_asc ?b \<noteq> []" by (simp_all add: Board_init_sel)
  note d = this
  from body_lines_NEW[OF d(1)] obtain new_text where
    nt: "toString ?b NEW = Inr new_text" and nb: "body_lines new_text = new_body_lines ?b"
    by blast
  note t = body_line_tokens[OF assms, of n0 k0 g]
  note lo = t[THEN conjunct1] and ln = t[THEN conjunct2, THEN conjunct1]
    and o = t[THEN conjunct2, THEN conjunct2, THEN conjunct1]
    and nn = t[THEN conjunct2, THEN conjunct2, THEN conjunct2, THEN conjunct1]
    and r = t[THEN conjunct2, THEN conjunct2, THEN conjunct2, THEN conjunct2]
  have ret: "(\<exists>old_text. toString ?b OLD = Inr old_text) \<longleftrightarrow> [] \<notin> set chips"
    using ne by (simp add: toString_OLD_Inr_ex calc_max_row_cases)
  have old: "length (body_lines old_text) = length chips
         \<and> body_lines old_text ! i = py_join '' '' (map (\<lambda>r. py_str r @ '':0'') (sort (chips ! i)))
         \<and> map strip_flag (py_split CHR '' '' (body_lines old_text ! i))
             = rev (py_split CHR '' '' (body_lines new_text ! i))"
    if "toString ?b OLD = Inr old_text" for old_text
    unfolding body_lines_OLD[OF d(2) that] nb using lo o r by (intro conjI)
  have new: "length (body_lines new_text) = length chips"
     "body_lines new_text ! i = py_join '' '' (map py_str (rev (sort (chips ! i))))"
    unfolding nb using ln nn by - assumption+
  show ?thesis
  proof (intro exI[of _ new_text] conjI allI impI)
    show "toString ?b NEW = Inr new_text" by (rule nt)
    show "length (body_lines new_text) = length chips" by (rule new(1))
    show "body_lines new_text ! i = py_join '' '' (map py_str (rev (sort (chips ! i))))"
      by (rule new(2))
    show "(\<exists>old_text. toString ?b OLD = Inr old_text) \<longleftrightarrow> [] \<notin> set chips" by (rule ret)
  next
    fix old_text assume a: "toString ?b OLD = Inr old_text"
    note p = old[OF a]
    show "length (body_lines old_text) = length chips" by (rule p[THEN conjunct1])
    show "body_lines old_text ! i = py_join '' '' (map (\<lambda>r. py_str r @ '':0'') (sort (chips ! i)))"
      by (rule p[THEN conjunct2, THEN conjunct1])
    show "map strip_flag (py_split CHR '' '' (body_lines old_text ! i))
             = rev (py_split CHR '' '' (body_lines new_text ! i))"
      by (rule p[THEN conjunct2, THEN conjunct2])
  qed
qed

theorem body_lines_reversed_witness:
  "toString (Board_init 3 2 [[7], [4, -1, 12]] 0) OLD
     = Inr (''3,2,0,12,3'' @ [newline] @ ''7:0'' @ [newline] @ ''-1:0 4:0 12:0'')
   \<and> toString (Board_init 3 2 [[7], [4, -1, 12]] 0) NEW
     = Inr (''n=3,k=2,n_chips=3'' @ [newline] @ ''7'' @ [newline] @ ''12 4 -1'')
   \<and> map strip_flag (py_split CHR '' ''
         (body_lines (''3,2,0,12,3'' @ [newline] @ ''7:0'' @ [newline] @ ''-1:0 4:0 12:0'') ! 1))
     = rev (py_split CHR '' ''
         (body_lines (''n=3,k=2,n_chips=3'' @ [newline] @ ''7'' @ [newline] @ ''12 4 -1'') ! 1))"
proof -
  let ?b = "Board_init 3 2 [[7], [4, -1, 12]] 0"
  let ?old = "''3,2,0,12,3'' @ [newline] @ ''7:0'' @ [newline] @ ''-1:0 4:0 12:0''"
  let ?new = "''n=3,k=2,n_chips=3'' @ [newline] @ ''7'' @ [newline] @ ''12 4 -1''"
  have i: "1 < length [[7], [4, -1, 12::int]]" by simp
  have o: "toString ?b OLD = Inr ?old" by code_simp
  have n: "toString ?b NEW = Inr ?new" by code_simp
  from body_lines_reversed[OF i, of 3 2 0] obtain new_text where
    nt: "toString ?b NEW = Inr new_text"
    and r: "\<forall>old_text. toString ?b OLD = Inr old_text \<longrightarrow>
           length (body_lines old_text) = length [[7], [4, -1, 12::int]]
         \<and> body_lines old_text ! 1
             = py_join '' '' (map (\<lambda>r. py_str r @ '':0'') (sort ([[7], [4, -1, 12]] ! 1)))
         \<and> map strip_flag (py_split CHR '' '' (body_lines old_text ! 1))
             = rev (py_split CHR '' '' (body_lines new_text ! 1))"
    by blast
  from nt n have e: "new_text = ?new" by simp
  from r o have "map strip_flag (py_split CHR '' '' (body_lines ?old ! 1))
             = rev (py_split CHR '' '' (body_lines new_text ! 1))"
    by blast
  then have "map strip_flag (py_split CHR '' '' (body_lines ?old ! 1))
             = rev (py_split CHR '' '' (body_lines ?new ! 1))"
    unfolding e .
  with o n show ?thesis by (intro conjI)
qed

subsection \<open>Round trip through the old format\<close>

text \<open>
  C7 (as amended). For every old-format record with at least one column line that
  parses successfully, serializing the parsed Board to the old format returns a text
  whose lines parse to an equivalent Board: the same n, k and goal and the same multiset
  of non-negative values in each column; indeed the same Board. The header fields
  max_row and num_chips of the input are not used.
\<close>

theorem old_round_trip:
  assumes "fromString OLD lines = Inr b" and "2 \<le> length lines"
  shows "\<exists>text b'. toString b OLD = Inr text
           \<and> fromString OLD (py_split newline text) = Inr b'
           \<and> n b' = n b \<and> k b' = k b \<and> goal b' = goal b
           \<and> map nonneg_rows (chips_asc b') = map nonneg_rows (chips_asc b)
           \<and> b' = b"
proof -
  from fromString_shape[OF assms(1)] obtain n0 k0 chips g where
    b: "b = Board_init n0 k0 chips g" and ne: "[] \<notin> set chips"
    and len: "Suc (length chips) = length lines"
    by blast
  from len assms(2) have chips: "chips \<noteq> []" by auto
  let ?h = "old_header [n0, k0, g, max_of_columns chips, num_nonneg chips]"
  let ?body = "map old_line (map sort_asc chips)"
  let ?text = "py_join [newline] (?h # ?body)"
  have t: "toString b OLD = Inr ?text" unfolding b by (rule toString_old_text[OF chips ne])
  have "\<forall>x\<in>set (?h # ?body). newline \<notin> set x"
    using old_header_no_newline old_line_no_newline by auto
  then have s: "py_split newline ?text = ?h # ?body" by (intro py_split_join) simp_all
  have "[] \<notin> set (map sort_asc chips)"
  proof
    assume "[] \<in> set (map sort_asc chips)"
    then obtain c where "c \<in> set chips" "sort_asc c = []" by (auto simp: image_iff)
    then have "c = []" by (metis length_0_conv length_sort sort_asc_def)
    with \<open>c \<in> set chips\<close> ne show False by simp
  qed
  then have "fromString OLD (?h # ?body) = Inr (Board_init n0 k0 (map sort_asc chips) g)"
    by (rule fromString_old_text)
  then have p: "fromString OLD (py_split newline ?text) = Inr b"
    unfolding s b by (simp add: Board_init_sorted)
  from t p show ?thesis by blast
qed

theorem old_round_trip_witness:
  "\<exists>text b'. toString (Board_init 3 2 [[4, -1], [7]] 1) OLD = Inr text
           \<and> fromString OLD (py_split newline text) = Inr b'
           \<and> n b' = n (Board_init 3 2 [[4, -1], [7]] 1) \<and> k b' = k (Board_init 3 2 [[4, -1], [7]] 1)
           \<and> goal b' = goal (Board_init 3 2 [[4, -1], [7]] 1)
           \<and> map nonneg_rows (chips_asc b') = map nonneg_rows (chips_asc (Board_init 3 2 [[4, -1], [7]] 1))
           \<and> b' = Board_init 3 2 [[4, -1], [7]] 1"
proof -
  have p: "fromString OLD [''3,2,1,99,99'', ''4:0 -1:1'', ''7''] = Inr (Board_init 3 2 [[4, -1], [7]] 1)"
    by code_simp
  have l: "2 \<le> length [''3,2,1,99,99'', ''4:0 -1:1'', ''7'']" by simp
  show ?thesis by (rule old_round_trip[OF p l])
qed

text \<open>
  C7 as stated fails: a record that is a header alone parses successfully, and
  serializing its Board to the old format raises \<^verbatim>\<open>ValueError\<close>, so there is no
  record to parse again.
\<close>

theorem old_round_trip_fails_on_header_only_record:
  "fromString OLD [''1,1,0,0,0''] = Inr (Board_init 1 1 [] 0)
   \<and> toString (Board_init 1 1 [] 0) OLD = Inl ValueError"
  by code_simp

end
